theory Spec2Isabelle
  imports Main "HOL-Library.Word"
begin

section \<open>The CSI receiver firmware (csi\_receiver.c)\<close>

text \<open>
  The firmware consists of two callbacks (\<open>wifi_csi_cb\<close>, \<open>wifi_event_handler\<close>) and a
  straight-line initialisation (\<open>wifi_init\<close>, \<open>app_main\<close>). Everything the code does is an
  effect: a call into the vendor stack, text written to the standard output, or a read of
  the sample buffer. The model threads a record of these effects through every function.
\<close>

subsection \<open>Vendor types\<close>

text \<open>A \<open>void *\<close> is an address; \<open>NULL\<close> is address 0. The code never dereferences one.\<close>

type_synonym ptr = nat

definition NULL :: ptr where
  "NULL = 0"

type_synonym int8_t = "8 word"
type_synonym uint16_t = "16 word"
type_synonym int32_t = "32 word"

text \<open>
  Modelled from the spec: \<open>wifi_csi_info_t\<close> is declared in the vendor header
  \<open>esp_wifi_types.h\<close>, which is not part of the repository. The spec describes a sample as
  a "buffer of signed byte values plus a length"; the vendor declares \<open>int8_t *buf\<close> and
  \<open>uint16_t len\<close>. The field \<open>buf\<close> holds the bytes of the object the pointer
  refers to, so that a read past its end is visible in the model.
\<close>

record wifi_csi_info_t =
  buf :: "int8_t list"
  len :: uint16_t


text \<open>
  Modelled from the spec: the event bases and event identifiers are declared in vendor
  headers (\<open>esp_event.h\<close>, \<open>esp_wifi_types.h\<close>, \<open>esp_netif_types.h\<close>) that are not part of
  the repository. An \<open>esp_event_base_t\<close> is a pointer to the name of the event class and is
  compared by address: \<open>WIFI_EVENT\<close> ("link-layer") and \<open>IP_EVENT\<close> ("ip-layer") are two
  distinct objects, every other base is a third kind. The identifiers are the vendor's
  enumerators; the spec names "station-started", "station-disconnected" and
  "address-assigned" as different kinds of event.
\<close>

datatype esp_event_base_t = WIFI_EVENT | IP_EVENT | OTHER_EVENT_BASE string

definition WIFI_EVENT_STA_START :: int32_t where
  "WIFI_EVENT_STA_START = 2"

definition WIFI_EVENT_STA_DISCONNECTED :: int32_t where
  "WIFI_EVENT_STA_DISCONNECTED = 5"

definition IP_EVENT_STA_GOT_IP :: int32_t where
  "IP_EVENT_STA_GOT_IP = 0"

definition ESP_EVENT_ANY_ID :: int32_t where
  "ESP_EVENT_ANY_ID = - 1"

text \<open>
  The configuration values handed to the vendor stack. Their types are declared in vendor
  headers as well; only the fields the source initialises are kept.
\<close>

datatype wifi_init_config_t = WIFI_INIT_CONFIG_DEFAULT

datatype wifi_auth_mode_t =
  WIFI_AUTH_OPEN | WIFI_AUTH_WEP | WIFI_AUTH_WPA_PSK | WIFI_AUTH_WPA2_PSK

datatype wifi_mode_t = WIFI_MODE_NULL | WIFI_MODE_STA | WIFI_MODE_AP | WIFI_MODE_APSTA

datatype wifi_interface_t = WIFI_IF_STA | WIFI_IF_AP

record wifi_sta_config_t =
  ssid :: string
  password :: string
  threshold_authmode :: wifi_auth_mode_t

datatype wifi_config_t = Sta wifi_sta_config_t

record wifi_csi_config_t =
  lltf_en :: bool
  htltf_en :: bool
  stbc_htltf2_en :: bool
  ltf_merge_en :: bool
  channel_filter_en :: bool
  manu_scale :: bool
  shift :: bool

text \<open>The two functions of the source whose address is handed to the vendor stack.\<close>

datatype callback = Addr_wifi_event_handler | Addr_wifi_csi_cb

text \<open>
  A call into the vendor stack, with its arguments. The source discards every return
  value, so a call has no result in the model.
\<close>

datatype esp_call =
    Nvs_flash_init
  | Esp_netif_init
  | Esp_event_loop_create_default
  | Esp_netif_create_default_wifi_sta
  | Esp_wifi_init wifi_init_config_t
  | Esp_event_handler_instance_register esp_event_base_t int32_t callback ptr ptr
  | Esp_wifi_set_mode wifi_mode_t
  | Esp_wifi_set_config wifi_interface_t wifi_config_t
  | Esp_wifi_start
  | Esp_wifi_set_csi_config wifi_csi_config_t
  | Esp_wifi_set_csi_rx_cb callback ptr
  | Esp_wifi_set_csi bool
  | Esp_wifi_connect
  | Esp_log_info string string

subsection \<open>Effects\<close>

text \<open>The strings of the C source end in a line feed where it writes \<open>\n\<close>.\<close>

definition LF :: char where
  "LF = CHR 0x0A"

text \<open>
  \<open>calls\<close> lists the calls made into the vendor stack, in order; \<open>stdout\<close> is the text
  written by \<open>printf\<close> so far; \<open>buf_reads\<close> lists the indices at which \<open>info->buf[i]\<close> was
  evaluated, in order.
\<close>

record sys =
  calls :: "esp_call list"
  stdout :: string
  buf_reads :: "nat list"

definition call :: "esp_call \<Rightarrow> sys \<Rightarrow> sys" where
  "call c s = s\<lparr>calls := calls s @ [c]\<rparr>"

text \<open>
  The conversion \<open>%d\<close> of the C library: the decimal digits of the value, most
  significant first, with a leading minus sign for a negative value and no padding.
\<close>

definition digit_char :: "nat \<Rightarrow> char" where
  "digit_char d = char_of (48 + d)"

fun dec_digits :: "nat \<Rightarrow> string" where
  "dec_digits n =
     (if n < 10 then [digit_char n] else dec_digits (n div 10) @ [digit_char (n mod 10)])"

declare dec_digits.simps [simp del]

definition fmt_d :: "int \<Rightarrow> string" where
  "fmt_d v = (if v < 0 then CHR ''-'' # dec_digits (nat (- v)) else dec_digits (nat v))"

definition printf :: "string \<Rightarrow> sys \<Rightarrow> sys" where
  "printf str s = s\<lparr>stdout := stdout s @ str\<rparr>"

text \<open>
  Reading \<open>info->buf[i]\<close> is defined in C only inside the object; outside it the model
  stops with a fault instead of inventing a value.
\<close>

datatype fault = Out_of_bounds_read nat

definition read_buf :: "wifi_csi_info_t \<Rightarrow> nat \<Rightarrow> sys \<Rightarrow> fault + (int8_t \<times> sys)" where
  "read_buf info i s =
     (if i < length (buf info)
      then Inr (buf info ! i, s\<lparr>buf_reads := buf_reads s @ [i]\<rparr>)
      else Inl (Out_of_bounds_read i))"

subsection \<open>The CSI callback\<close>

text \<open>
  \<^verbatim>\<open>for (int i = 0; i < info->len; i++) { printf("%d ", info->buf[i]); }\<close>

  The counter is an \<open>int\<close> that stays between 0 and \<open>info->len\<close>, at most 65535, so it
  never overflows and is a natural number here. The \<open>int8_t\<close> argument is promoted to
  \<open>int\<close>, its signed value.
\<close>

function csi_loop :: "wifi_csi_info_t \<Rightarrow> nat \<Rightarrow> sys \<Rightarrow> fault + sys" where
  "csi_loop info i s =
     (if i < unat (len info) then
        (case read_buf info i s of
           Inl f \<Rightarrow> Inl f
         | Inr (b, s') \<Rightarrow> csi_loop info (Suc i) (printf (fmt_d (sint b) @ '' '') s'))
      else Inr s)"
  by pat_completeness auto
termination
  by (relation "measure (\<lambda>(info, i, s). unat (len info) - i)") auto

declare csi_loop.simps [simp del]

definition wifi_csi_cb :: "ptr \<Rightarrow> wifi_csi_info_t \<Rightarrow> sys \<Rightarrow> fault + sys" where
  "wifi_csi_cb ctx info s =
     (case csi_loop info 0 (printf ''CSI_DATA: '' s) of
        Inl f \<Rightarrow> Inl f
      | Inr s' \<Rightarrow> Inr (printf [LF] s'))"

subsection \<open>The event handler\<close>

definition TAG :: string where
  "TAG = ''CSI''"

definition esp_wifi_connect :: "sys \<Rightarrow> sys" where
  "esp_wifi_connect s = call Esp_wifi_connect s"

definition ESP_LOGI :: "string \<Rightarrow> string \<Rightarrow> sys \<Rightarrow> sys" where
  "ESP_LOGI tag msg s = call (Esp_log_info tag msg) s"

definition wifi_event_handler ::
  "ptr \<Rightarrow> esp_event_base_t \<Rightarrow> int32_t \<Rightarrow> ptr \<Rightarrow> sys \<Rightarrow> sys" where
  "wifi_event_handler arg event_base event_id event_data s =
     (if event_base = WIFI_EVENT \<and> event_id = WIFI_EVENT_STA_START then
        esp_wifi_connect s
      else if event_base = WIFI_EVENT \<and> event_id = WIFI_EVENT_STA_DISCONNECTED then
        ESP_LOGI TAG ''Retrying WiFi connection...'' (esp_wifi_connect s)
      else if event_base = IP_EVENT \<and> event_id = IP_EVENT_STA_GOT_IP then
        ESP_LOGI TAG ''WiFi connected. CSI should start appearing.'' s
      else s)"

text \<open>
  The event loop hands the events to the handler one after the other, each with the
  \<open>arg\<close> the handler was registered with (\<open>NULL\<close>) and the event's data pointer.
\<close>

type_synonym event = "esp_event_base_t \<times> int32_t \<times> ptr"

fun dispatch :: "event list \<Rightarrow> sys \<Rightarrow> sys" where
  "dispatch [] s = s"
| "dispatch ((event_base, event_id, event_data) # es) s =
     dispatch es (wifi_event_handler NULL event_base event_id event_data s)"

definition connect_requests :: "sys \<Rightarrow> nat" where
  "connect_requests s = count_list (calls s) Esp_wifi_connect"

definition log_entries :: "sys \<Rightarrow> nat" where
  "log_entries s = length (filter (\<lambda>c. case c of Esp_log_info t m \<Rightarrow> True | _ \<Rightarrow> False) (calls s))"

definition station_event :: "event \<Rightarrow> bool" where
  "station_event e =
     (fst e = WIFI_EVENT \<and>
      (fst (snd e) = WIFI_EVENT_STA_START \<or> fst (snd e) = WIFI_EVENT_STA_DISCONNECTED))"

subsection \<open>Initialisation\<close>

definition WIFI_SSID :: string where
  "WIFI_SSID = ''Connecting...''"

definition WIFI_PASS :: string where
  "WIFI_PASS = ''Error501''"

definition wifi_config :: wifi_config_t where
  "wifi_config =
     Sta \<lparr>ssid = WIFI_SSID, password = WIFI_PASS, threshold_authmode = WIFI_AUTH_WPA2_PSK\<rparr>"

definition csi_config :: wifi_csi_config_t where
  "csi_config =
     \<lparr>lltf_en = True, htltf_en = True, stbc_htltf2_en = True, ltf_merge_en = True,
      channel_filter_en = False, manu_scale = False, shift = False\<rparr>"

text \<open>
  Lines 91 to 93 of \<open>wifi_init\<close>: the capture configuration, the callback and the switch.
  They are named here so that the sequence can be referred to on its own.
\<close>

definition csi_register :: "sys \<Rightarrow> sys" where
  "csi_register s0 =
     (let s1 = call (Esp_wifi_set_csi_config csi_config) s0;
          s2 = call (Esp_wifi_set_csi_rx_cb Addr_wifi_csi_cb NULL) s1;
          s3 = call (Esp_wifi_set_csi True) s2
      in s3)"

definition wifi_init :: "sys \<Rightarrow> sys" where
  "wifi_init s0 =
     (let s1 = call Esp_netif_init s0;
          s2 = call Esp_event_loop_create_default s1;
          s3 = call Esp_netif_create_default_wifi_sta s2;
          cfg = WIFI_INIT_CONFIG_DEFAULT;
          s4 = call (Esp_wifi_init cfg) s3;
          s5 = call (Esp_event_handler_instance_register
                      WIFI_EVENT ESP_EVENT_ANY_ID Addr_wifi_event_handler NULL NULL) s4;
          s6 = call (Esp_event_handler_instance_register
                      IP_EVENT IP_EVENT_STA_GOT_IP Addr_wifi_event_handler NULL NULL) s5;
          s7 = call (Esp_wifi_set_mode WIFI_MODE_STA) s6;
          s8 = call (Esp_wifi_set_config WIFI_IF_STA wifi_config) s7;
          s9 = call Esp_wifi_start s8;
          s10 = csi_register s9;
          s11 = ESP_LOGI TAG ''CSI initialized'' s10
      in s11)"

definition app_main :: "sys \<Rightarrow> sys" where
  "app_main s0 = wifi_init (call Nvs_flash_init s0)"

text \<open>The state of the system when the program starts.\<close>

definition boot :: sys where
  "boot = \<lparr>calls = [], stdout = [], buf_reads = []\<rparr>"

text \<open>
  \<open>called_before a b cs\<close>: the call \<open>a\<close> occurs in \<open>cs\<close> and \<open>b\<close> occurs after its first
  occurrence.
\<close>

fun called_before :: "esp_call \<Rightarrow> esp_call \<Rightarrow> esp_call list \<Rightarrow> bool" where
  "called_before a b [] = False"
| "called_before a b (c # cs) = (if c = a then b \<in> set cs else called_before a b cs)"

subsection \<open>Describing the output\<close>

text \<open>
  The text the loop of \<open>wifi_csi_cb\<close> writes for the bytes \<open>bs\<close>: for each byte its decimal
  value followed by one space, as the format string \<open>"%d "\<close> has it.
\<close>

definition csi_body :: "int8_t list \<Rightarrow> string" where
  "csi_body bs = concat (map (\<lambda>b. fmt_d (sint b) @ '' '') bs)"

text \<open>
  The tokens of a text: its maximal runs of characters other than the space.
  \<open>split_sp cur str\<close> carries the token being read in \<open>cur\<close>.
\<close>

fun split_sp :: "string \<Rightarrow> string \<Rightarrow> string list" where
  "split_sp cur [] = (if cur = [] then [] else [cur])"
| "split_sp cur (c # cs) =
     (if c = CHR '' '' then (if cur = [] then split_sp [] cs else cur # split_sp [] cs)
      else split_sp (cur @ [c]) cs)"

definition tokens :: "string \<Rightarrow> string list" where
  "tokens str = split_sp [] str"

definition decimal_digits :: string where
  "decimal_digits = ''0123456789''"

text \<open>
  The line as the specification words it: the label, the decimal values separated by
  single spaces, and a newline.
\<close>

fun join_sp :: "string list \<Rightarrow> string" where
  "join_sp [] = []"
| "join_sp [t] = t"
| "join_sp (t # ts) = t @ '' '' @ join_sp ts"

definition spec_csi_line :: "int list \<Rightarrow> string" where
  "spec_csi_line vs = ''CSI_DATA: '' @ join_sp (map fmt_d vs) @ [LF]"

subsection \<open>The radio driver behind the capture calls\<close>

text \<open>
  Modelled from the spec: the driver that serves \<open>esp_wifi_set_csi_config\<close>,
  \<open>esp_wifi_set_csi_rx_cb\<close> and \<open>esp_wifi_set_csi\<close> is vendor code outside the repository.
  The spec says that registration "installs the CSI Capture Configuration on the radio and
  designates \<open>on_csi_sample\<close> as the exclusive receiver of subsequent samples; enabling
  capture is a separate explicit step (\<open>set_capture_enabled(true)\<close>)". So the driver holds
  one configuration, one receiver and one switch, and each call replaces the value held.
  A sample is handed to the receiver when capture is enabled.
\<close>

record radio =
  capture_config :: "wifi_csi_config_t option"
  receiver :: "(callback \<times> ptr) option"
  capture_enabled :: bool

fun driver_call :: "esp_call \<Rightarrow> radio \<Rightarrow> radio" where
  "driver_call (Esp_wifi_set_csi_config c) r = r\<lparr>capture_config := Some c\<rparr>"
| "driver_call (Esp_wifi_set_csi_rx_cb f ctx) r = r\<lparr>receiver := Some (f, ctx)\<rparr>"
| "driver_call (Esp_wifi_set_csi en) r = r\<lparr>capture_enabled := en\<rparr>"
| "driver_call _ r = r"

definition radio_after :: "esp_call list \<Rightarrow> radio \<Rightarrow> radio" where
  "radio_after cs r = fold driver_call cs r"

definition deliver :: "radio \<Rightarrow> wifi_csi_info_t \<Rightarrow> sys \<Rightarrow> fault + sys" where
  "deliver r info s =
     (if capture_enabled r then
        (case receiver r of
           Some (Addr_wifi_csi_cb, ctx) \<Rightarrow> wifi_csi_cb ctx info s
         | _ \<Rightarrow> Inr s)
      else Inr s)"

fun deliver_all :: "radio \<Rightarrow> wifi_csi_info_t list \<Rightarrow> sys \<Rightarrow> fault + sys" where
  "deliver_all r [] s = Inr s"
| "deliver_all r (info # infos) s =
     (case deliver r info s of Inl f \<Rightarrow> Inl f | Inr s' \<Rightarrow> deliver_all r infos s')"

section \<open>Properties of the CSI callback\<close>

subsection \<open>Decimal conversion\<close>

lemma digit_char_table: "map digit_char [0, 1, 2, 3, 4, 5, 6, 7, 8, 9] = decimal_digits"
  by code_simp

lemma digit_char_cases: "d < 10 \<Longrightarrow> digit_char d \<in> set decimal_digits"
proof -
  assume "d < 10"
  then have "d \<in> set [0, 1, 2, 3, 4, 5, 6, 7, 8, 9 :: nat]" by auto
  then have "digit_char d \<in> set (map digit_char [0, 1, 2, 3, 4, 5, 6, 7, 8, 9])"
    unfolding set_map by (rule imageI)
  then show ?thesis by (simp only: digit_char_table)
qed

lemma dec_digits_chars: "set (dec_digits n) \<subseteq> set decimal_digits"
proof (induction n rule: dec_digits.induct)
  case (1 n)
  show ?case
  proof (cases "n < 10")
    case True
    then show ?thesis using digit_char_cases[of n] by (subst dec_digits.simps) simp
  next
    case False
    have "n mod 10 < 10" by simp
    from digit_char_cases[OF this] "1.IH"[OF False] False show ?thesis
      by (subst dec_digits.simps) simp
  qed
qed

lemma dec_digits_nonempty: "dec_digits n \<noteq> []"
  by (subst dec_digits.simps) simp

lemma fmt_d_nonempty: "fmt_d v \<noteq> []"
  by (simp add: fmt_d_def dec_digits_nonempty)

lemma fmt_d_chars: "set (fmt_d v) \<subseteq> insert (CHR ''-'') (set decimal_digits)"
  using dec_digits_chars[of "nat v"] dec_digits_chars[of "nat (- v)"]
  by (auto simp: fmt_d_def)

lemma fmt_d_no_space: "CHR '' '' \<notin> set (fmt_d v)"
proof -
  have "CHR '' '' \<notin> insert (CHR ''-'') (set decimal_digits)"
    by (simp add: decimal_digits_def)
  then show ?thesis using fmt_d_chars[of v] by blast
qed

lemma fmt_d_no_LF: "LF \<notin> set (fmt_d v)"
proof -
  have "LF \<notin> insert (CHR ''-'') (set decimal_digits)"
    by (simp add: decimal_digits_def LF_def)
  then show ?thesis using fmt_d_chars[of v] by blast
qed

lemma csi_body_no_LF: "LF \<notin> set (csi_body bs)"
proof (induction bs)
  case Nil
  show ?case by (simp add: csi_body_def)
next
  case (Cons b bs)
  have sp: "LF \<noteq> CHR '' ''" by (simp add: LF_def)
  have "csi_body (b # bs) = fmt_d (sint b) @ CHR '' '' # csi_body bs"
    by (simp add: csi_body_def)
  then show ?case using Cons.IH fmt_d_no_LF[of "sint b"] sp by simp
qed

subsection \<open>Tokens of the body\<close>

lemma split_sp_word:
  "CHR '' '' \<notin> set t \<Longrightarrow> split_sp cur (t @ rest) = split_sp (cur @ t) rest"
proof (induction t arbitrary: cur)
  case Nil
  show ?case by simp
next
  case (Cons c t)
  then have c: "c \<noteq> CHR '' ''" and t: "CHR '' '' \<notin> set t" by auto
  show ?case using Cons.IH[OF t, of "cur @ [c]"] c by simp
qed

lemma split_sp_token:
  "t \<noteq> [] \<Longrightarrow> CHR '' '' \<notin> set t \<Longrightarrow>
   split_sp [] (t @ CHR '' '' # rest) = t # split_sp [] rest"
  using split_sp_word[of t "[]" "CHR '' '' # rest"] by simp

lemma tokens_csi_body: "tokens (csi_body bs) = map (\<lambda>b. fmt_d (sint b)) bs"
  unfolding tokens_def csi_body_def
proof (induction bs)
  case Nil
  show ?case by simp
next
  case (Cons b bs)
  have "split_sp [] (fmt_d (sint b) @ CHR '' '' # concat (map (\<lambda>b. fmt_d (sint b) @ '' '') bs))
        = fmt_d (sint b) # split_sp [] (concat (map (\<lambda>b. fmt_d (sint b) @ '' '') bs))"
    by (rule split_sp_token[OF fmt_d_nonempty fmt_d_no_space])
  then show ?case using Cons.IH by simp
qed

subsection \<open>The loop\<close>

lemma csi_loop_in_bounds:
  "i \<le> unat (len info) \<Longrightarrow> unat (len info) \<le> length (buf info) \<Longrightarrow>
   csi_loop info i s =
     Inr (s\<lparr>stdout := stdout s @ csi_body (drop i (take (unat (len info)) (buf info))),
            buf_reads := buf_reads s @ [i..<unat (len info)]\<rparr>)"
proof (induction info i s rule: csi_loop.induct)
  case (1 info i s)
  let ?n = "unat (len info)"
  show ?case
  proof (cases "i < ?n")
    case True
    then have il: "i < length (buf info)" using "1.prems" by simp
    let ?s1 = "s\<lparr>buf_reads := buf_reads s @ [i]\<rparr>"
    let ?s2 = "printf (fmt_d (sint (buf info ! i)) @ '' '') ?s1"
    have rb: "read_buf info i s = Inr (buf info ! i, ?s1)"
      using il by (simp add: read_buf_def)
    have dr: "drop i (take ?n (buf info)) = buf info ! i # drop (Suc i) (take ?n (buf info))"
    proof -
      have "i < length (take ?n (buf info))" using True il by simp
      from Cons_nth_drop_Suc[OF this, symmetric] True show ?thesis by simp
    qed
    have up: "[i..<?n] = i # [Suc i..<?n]"
      using True by (simp add: upt_conv_Cons)
    have ih: "csi_loop info (Suc i) ?s2 =
      Inr (?s2\<lparr>stdout := stdout ?s2 @ csi_body (drop (Suc i) (take ?n (buf info))),
               buf_reads := buf_reads ?s2 @ [Suc i..<?n]\<rparr>)"
      using "1.IH"[OF True rb refl] True "1.prems" by simp
    show ?thesis
      apply (subst csi_loop.simps)
      apply (simp only: True if_True rb sum.case prod.case ih)
      apply (simp add: printf_def dr up csi_body_def)
      done
  next
    case False
    then have "i = ?n" using "1.prems" by simp
    then show ?thesis by (subst csi_loop.simps) (simp add: csi_body_def)
  qed
qed

lemma csi_loop_fault:
  "i \<le> length (buf info) \<Longrightarrow> length (buf info) < unat (len info) \<Longrightarrow>
   csi_loop info i s = Inl (Out_of_bounds_read (length (buf info)))"
proof (induction info i s rule: csi_loop.induct)
  case (1 info i s)
  show ?case
  proof (cases "i < length (buf info)")
    case True
    let ?s1 = "s\<lparr>buf_reads := buf_reads s @ [i]\<rparr>"
    have lt: "i < unat (len info)" using True "1.prems" by simp
    have rb: "read_buf info i s = Inr (buf info ! i, ?s1)"
      using True by (simp add: read_buf_def)
    have ih: "csi_loop info (Suc i) (printf (fmt_d (sint (buf info ! i)) @ '' '') ?s1) =
              Inl (Out_of_bounds_read (length (buf info)))"
      using "1.IH"[OF lt rb refl] True "1.prems" by simp
    show ?thesis
      apply (subst csi_loop.simps)
      apply (simp only: lt if_True rb sum.case prod.case ih)
      done
  next
    case False
    then have eq: "i = length (buf info)" using "1.prems" by simp
    then have lt: "i < unat (len info)" using "1.prems" by simp
    have rb: "read_buf info i s = Inl (Out_of_bounds_read (length (buf info)))"
      using eq by (simp add: read_buf_def)
    show ?thesis
      apply (subst csi_loop.simps)
      apply (simp only: lt if_True rb sum.case)
      done
  qed
qed

lemma wifi_csi_cb_in_bounds:
  assumes "unat (len info) \<le> length (buf info)"
  shows "wifi_csi_cb ctx info s =
     Inr (s\<lparr>stdout := stdout s @ ''CSI_DATA: '' @
                        csi_body (take (unat (len info)) (buf info)) @ [LF],
            buf_reads := buf_reads s @ [0..<unat (len info)]\<rparr>)"
  unfolding wifi_csi_cb_def
  by (simp add: csi_loop_in_bounds[OF _ assms] printf_def)

lemma wifi_csi_cb_fault:
  assumes "length (buf info) < unat (len info)"
  shows "wifi_csi_cb ctx info s = Inl (Out_of_bounds_read (length (buf info)))"
  unfolding wifi_csi_cb_def
  by (simp add: csi_loop_fault[OF _ assms])

subsection \<open>The emitted line\<close>

text \<open>
  C1, as the code has it. For a sample whose buffer holds at least \<open>len\<close> bytes, the
  callback appends one line to the output: the label \<open>CSI_DATA: \<close>, then for each of the
  first \<open>len\<close> bytes, in order, the decimal value of the signed byte followed by one space
  (the last value too), then a newline. The body splits into exactly \<open>len\<close> tokens, the
  decimal values of the bytes, and the newline at the end is the only one of the line.
\<close>

theorem csi_line_format:
  assumes "unat (len info) \<le> length (buf info)"
  shows "(\<exists>s'. wifi_csi_cb ctx info s = Inr s' \<and>
            stdout s' = stdout s @ ''CSI_DATA: '' @
                        csi_body (take (unat (len info)) (buf info)) @ [LF]) \<and>
         tokens (csi_body (take (unat (len info)) (buf info))) =
           map (\<lambda>b. fmt_d (sint b)) (take (unat (len info)) (buf info)) \<and>
         length (tokens (csi_body (take (unat (len info)) (buf info)))) = unat (len info) \<and>
         LF \<notin> set (''CSI_DATA: '' @ csi_body (take (unat (len info)) (buf info)))"
proof -
  have "length (take (unat (len info)) (buf info)) = unat (len info)"
    using assms by simp
  moreover have "LF \<notin> set ''CSI_DATA: ''"
    by (simp add: LF_def)
  ultimately show ?thesis
    by (simp add: wifi_csi_cb_in_bounds[OF assms] tokens_csi_body csi_body_no_LF)
qed

theorem csi_line_format_witness:
  "unat (len \<lparr>buf = [1, - 2, 44, 7], len = 3\<rparr>) \<le> length (buf \<lparr>buf = [1, - 2, 44, 7 :: int8_t], len = 3\<rparr>) \<and>
   (\<exists>s'. wifi_csi_cb NULL \<lparr>buf = [1, - 2, 44, 7], len = 3\<rparr> boot = Inr s' \<and>
         stdout s' = ''CSI_DATA: 1 -2 44 '' @ [LF]) \<and>
   tokens ''1 -2 44 '' = [''1'', ''-2'', ''44'']"
proof -
  let ?info = "\<lparr>buf = [1, - 2, 44, 7 :: int8_t], len = 3\<rparr>"
  have h: "unat (len ?info) \<le> length (buf ?info)" by simp
  have b: "csi_body (take (unat (len ?info)) (buf ?info)) = ''1 -2 44 ''" by code_simp
  have t: "map (\<lambda>b. fmt_d (sint b)) (take (unat (len ?info)) (buf ?info)) = [''1'', ''-2'', ''44'']"
    by code_simp
  have o: "stdout boot = []" by (simp add: boot_def)
  from csi_line_format[OF h, of NULL boot] show ?thesis
    unfolding b t o using h by simp
qed

text \<open>
  The claim as the specification words it fails. A signed byte cannot hold 300: stored in
  an \<open>int8_t\<close> it is 44, and the callback prints 44. And every value, the last one too, is
  followed by a space, so also the sample \<open>[1, -2, 3]\<close> does not give the line of the
  specification.
\<close>

theorem csi_line_counterexample:
  "wifi_csi_cb NULL \<lparr>buf = [1, - 2, 300], len = 3\<rparr> boot =
     Inr (boot\<lparr>stdout := ''CSI_DATA: 1 -2 44 '' @ [LF], buf_reads := [0, 1, 2]\<rparr>) \<and>
   spec_csi_line [1, - 2, 300] = ''CSI_DATA: 1 -2 300'' @ [LF] \<and>
   ''CSI_DATA: 1 -2 44 '' @ [LF] \<noteq> spec_csi_line [1, - 2, 300] \<and>
   wifi_csi_cb NULL \<lparr>buf = [1, - 2, 3], len = 3\<rparr> boot =
     Inr (boot\<lparr>stdout := ''CSI_DATA: 1 -2 3 '' @ [LF], buf_reads := [0, 1, 2]\<rparr>) \<and>
   spec_csi_line [1, - 2, 3] = ''CSI_DATA: 1 -2 3'' @ [LF] \<and>
   ''CSI_DATA: 1 -2 3 '' @ [LF] \<noteq> spec_csi_line [1, - 2, 3]"
  by code_simp

text \<open>
  C6. For a sample of length 0 the callback writes the label and the newline, nothing
  else, whatever the buffer is.
\<close>

theorem csi_empty_sample:
  assumes "len info = 0"
  shows "wifi_csi_cb ctx info s = Inr (s\<lparr>stdout := stdout s @ ''CSI_DATA: '' @ [LF]\<rparr>)"
proof -
  have "unat (len info) \<le> length (buf info)" using assms by simp
  from wifi_csi_cb_in_bounds[OF this, of ctx s] assms show ?thesis
    by (simp add: csi_body_def)
qed

theorem csi_empty_sample_witness:
  "len \<lparr>buf = [], len = 0\<rparr> = 0 \<and>
   wifi_csi_cb NULL \<lparr>buf = [], len = 0\<rparr> boot =
     Inr \<lparr>calls = [], stdout = ''CSI_DATA: '' @ [LF], buf_reads = []\<rparr>"
  using csi_empty_sample[of "\<lparr>buf = [], len = 0\<rparr>" NULL boot]
  by (simp add: boot_def)

subsection \<open>Reads of the buffer\<close>

text \<open>
  C9. Whatever the sample, the callback evaluates \<open>info->buf[i]\<close> only at indices below
  \<open>len\<close>: when it returns, it has read the indices 0 to \<open>len - 1\<close>, each once and in
  order, and when the buffer is shorter than \<open>len\<close> the read that leaves the buffer is at
  an index below \<open>len\<close>. With a buffer of at least \<open>len\<close> bytes it returns. When \<open>len\<close> is
  not positive it reads nothing and writes the label and the newline only.
\<close>

theorem csi_reads_within_len:
  "(case wifi_csi_cb ctx info s of
      Inr s' \<Rightarrow> buf_reads s' = buf_reads s @ [0..<unat (len info)]
    | Inl (Out_of_bounds_read i) \<Rightarrow> i < unat (len info)) \<and>
   (unat (len info) \<le> length (buf info) \<longrightarrow>
      (\<exists>s'. wifi_csi_cb ctx info s = Inr s' \<and>
            buf_reads s' = buf_reads s @ [0..<unat (len info)] \<and>
            (\<forall>i \<in> set [0..<unat (len info)]. i < length (buf info)))) \<and>
   (uint (len info) \<le> 0 \<longrightarrow>
      (\<exists>s'. wifi_csi_cb ctx info s = Inr s' \<and>
            buf_reads s' = buf_reads s \<and>
            stdout s' = stdout s @ ''CSI_DATA: '' @ [LF]))"
proof (intro conjI impI)
  show "case wifi_csi_cb ctx info s of
      Inr s' \<Rightarrow> buf_reads s' = buf_reads s @ [0..<unat (len info)]
    | Inl (Out_of_bounds_read i) \<Rightarrow> i < unat (len info)"
  proof (cases "unat (len info) \<le> length (buf info)")
    case True
    then show ?thesis by (simp add: wifi_csi_cb_in_bounds)
  next
    case False
    then have "length (buf info) < unat (len info)" by simp
    then show ?thesis by (simp add: wifi_csi_cb_fault)
  qed
next
  assume b: "unat (len info) \<le> length (buf info)"
  then show "\<exists>s'. wifi_csi_cb ctx info s = Inr s' \<and>
            buf_reads s' = buf_reads s @ [0..<unat (len info)] \<and>
            (\<forall>i \<in> set [0..<unat (len info)]. i < length (buf info))"
    by (simp add: wifi_csi_cb_in_bounds)
next
  assume "uint (len info) \<le> 0"
  then have z: "unat (len info) = 0"
    by (simp add: unat_eq_nat_uint)
  then have "unat (len info) \<le> length (buf info)" by simp
  from wifi_csi_cb_in_bounds[OF this, of ctx s] z
  show "\<exists>s'. wifi_csi_cb ctx info s = Inr s' \<and>
            buf_reads s' = buf_reads s \<and>
            stdout s' = stdout s @ ''CSI_DATA: '' @ [LF]"
    by (simp add: csi_body_def)
qed


theorem csi_reads_within_len_witness:
  "(\<exists>s'. wifi_csi_cb NULL \<lparr>buf = [1, - 2, 44, 7], len = 3\<rparr> boot = Inr s' \<and>
         buf_reads s' = [0, 1, 2]) \<and>
   (\<exists>s'. wifi_csi_cb NULL \<lparr>buf = [1, - 2, 44, 7], len = 0\<rparr> boot = Inr s' \<and>
         buf_reads s' = [] \<and> stdout s' = ''CSI_DATA: '' @ [LF])"
proof -
  let ?a = "\<lparr>buf = [1, - 2, 44, 7 :: int8_t], len = 3\<rparr>"
  let ?b = "\<lparr>buf = [1, - 2, 44, 7 :: int8_t], len = 0\<rparr>"
  have ha: "unat (len ?a) \<le> length (buf ?a)" by simp
  have hb: "uint (len ?b) \<le> 0" by simp
  have u: "[0..<unat (len ?a)] = [0, 1, 2]" by code_simp
  have o: "stdout boot = []" "buf_reads boot = []" by (simp_all add: boot_def)
  note ta = csi_reads_within_len[where ctx = NULL and info = ?a and s = boot]
  note tb = csi_reads_within_len[where ctx = NULL and info = ?b and s = boot]
  from ta[THEN conjunct2, THEN conjunct1, THEN mp, OF ha]
  obtain sa where sa: "wifi_csi_cb NULL ?a boot = Inr sa"
    "buf_reads sa = buf_reads boot @ [0..<unat (len ?a)]" by blast
  from tb[THEN conjunct2, THEN conjunct2, THEN mp, OF hb]
  obtain sb where sb: "wifi_csi_cb NULL ?b boot = Inr sb"
    "buf_reads sb = buf_reads boot" "stdout sb = stdout boot @ ''CSI_DATA: '' @ [LF]" by blast
  have a: "\<exists>s'. wifi_csi_cb NULL ?a boot = Inr s' \<and> buf_reads s' = [0, 1, 2]"
    using sa unfolding u o by simp
  have b: "\<exists>s'. wifi_csi_cb NULL ?b boot = Inr s' \<and>
         buf_reads s' = [] \<and> stdout s' = ''CSI_DATA: '' @ [LF]"
    using sb unfolding o by simp
  from a b show ?thesis by (rule conjI)
qed

subsection \<open>What the output depends on\<close>

text \<open>
  C10. The line the callback writes depends on the length of the sample and on its first
  \<open>len\<close> bytes only: two samples that agree on these give the same line, whatever the
  \<open>ctx\<close> arguments, the bytes after the first \<open>len\<close>, and the calls made, the text written
  and the reads done before.
\<close>

theorem csi_line_deterministic:
  assumes "len a = len b"
      and "take (unat (len a)) (buf a) = take (unat (len b)) (buf b)"
      and "unat (len a) \<le> length (buf a)"
  shows "\<exists>line. (\<exists>s'. wifi_csi_cb ctx1 a s1 = Inr s' \<and> stdout s' = stdout s1 @ line) \<and>
                (\<exists>s'. wifi_csi_cb ctx2 b s2 = Inr s' \<and> stdout s' = stdout s2 @ line)"
proof -
  have "length (take (unat (len b)) (buf b)) = unat (len a)"
    using assms(2)[symmetric] assms(3) by simp
  then have bb: "unat (len b) \<le> length (buf b)"
    using assms(1) by simp
  let ?line = "''CSI_DATA: '' @ csi_body (take (unat (len a)) (buf a)) @ [LF]"
  have "\<exists>s'. wifi_csi_cb ctx1 a s1 = Inr s' \<and> stdout s' = stdout s1 @ ?line"
    by (simp add: wifi_csi_cb_in_bounds[OF assms(3)])
  moreover have "\<exists>s'. wifi_csi_cb ctx2 b s2 = Inr s' \<and> stdout s' = stdout s2 @ ?line"
    by (simp add: wifi_csi_cb_in_bounds[OF bb] assms(2))
  ultimately show ?thesis by blast
qed

theorem csi_line_deterministic_witness:
  "len \<lparr>buf = [5, - 7, 9], len = 2\<rparr> = len \<lparr>buf = [5, - 7, - 1, 3], len = 2\<rparr> \<and>
   take 2 [5, - 7, 9 :: int8_t] = take 2 [5, - 7, - 1, 3] \<and>
   (\<exists>line. (\<exists>s'. wifi_csi_cb 1 \<lparr>buf = [5, - 7, 9], len = 2\<rparr> boot = Inr s' \<and>
                  stdout s' = stdout boot @ line) \<and>
           (\<exists>s'. wifi_csi_cb 2 \<lparr>buf = [5, - 7, - 1, 3], len = 2\<rparr>
                    \<lparr>calls = [Esp_wifi_connect], stdout = ''boot'', buf_reads = [0]\<rparr> = Inr s' \<and>
                  stdout s' = ''boot'' @ line))"
proof -
  let ?a = "\<lparr>buf = [5, - 7, 9 :: int8_t], len = 2\<rparr>"
  let ?b = "\<lparr>buf = [5, - 7, - 1, 3 :: int8_t], len = 2\<rparr>"
  let ?s2 = "\<lparr>calls = [Esp_wifi_connect], stdout = ''boot'', buf_reads = [0]\<rparr>"
  have h1: "len ?a = len ?b" by simp
  have h2: "take (unat (len ?a)) (buf ?a) = take (unat (len ?b)) (buf ?b)" by simp
  have h3: "unat (len ?a) \<le> length (buf ?a)" by simp
  from csi_line_deterministic[OF h1 h2 h3, of 1 boot 2 ?s2] show ?thesis
    by simp
qed

section \<open>Properties of the event handler\<close>

lemma connect_requests_call:
  "connect_requests (call c s) = connect_requests s + (if c = Esp_wifi_connect then 1 else 0)"
  by (simp add: connect_requests_def call_def)

lemma log_entries_call:
  "log_entries (call c s) =
     log_entries s + (case c of Esp_log_info t m \<Rightarrow> 1 | _ \<Rightarrow> 0)"
  by (cases c) (simp_all add: log_entries_def call_def)

lemma event_ids_distinct:
  "WIFI_EVENT_STA_DISCONNECTED \<noteq> WIFI_EVENT_STA_START"
  by (simp add: WIFI_EVENT_STA_DISCONNECTED_def WIFI_EVENT_STA_START_def)

lemma handler_station_event:
  assumes "station_event (event_base, event_id, event_data)"
  shows "connect_requests (wifi_event_handler arg event_base event_id event_data s) =
         connect_requests s + 1"
  using assms event_ids_distinct
  by (auto simp: station_event_def wifi_event_handler_def esp_wifi_connect_def ESP_LOGI_def
        connect_requests_call)

lemma dispatch_station_events:
  "list_all station_event evs \<Longrightarrow>
   connect_requests (dispatch evs s) = connect_requests s + length evs"
proof (induction evs arbitrary: s)
  case Nil
  show ?case by simp
next
  case (Cons e evs)
  obtain event_base event_id event_data where e: "e = (event_base, event_id, event_data)"
    by (cases e) auto
  from Cons.prems have se: "station_event (event_base, event_id, event_data)"
    and rest: "list_all station_event evs" by (simp_all add: e)
  show ?case
    by (simp add: e Cons.IH[OF rest] handler_station_event[OF se])
qed

text \<open>
  C2. The events of a sequence of station-started and station-disconnected events are
  handed to the handler one after the other. After the first \<open>k\<close> of them exactly \<open>k\<close>
  connect requests have been issued, for every \<open>k\<close>: each delivery issues one connect
  request, and nothing is issued between two deliveries.
\<close>

theorem connect_once_per_event:
  assumes "list_all station_event evs" and "k \<le> length evs"
  shows "connect_requests (dispatch (take k evs) s) = connect_requests s + k"
proof -
  have "list_all station_event (take k evs)"
    using assms(1) by (auto simp: list_all_iff dest: in_set_takeD)
  from dispatch_station_events[OF this, of s] assms(2) show ?thesis by simp
qed

theorem connect_once_per_event_witness:
  "list_all station_event
     [(WIFI_EVENT, WIFI_EVENT_STA_START, NULL), (WIFI_EVENT, WIFI_EVENT_STA_DISCONNECTED, NULL),
      (WIFI_EVENT, WIFI_EVENT_STA_DISCONNECTED, NULL)] \<and>
   connect_requests (dispatch
     [(WIFI_EVENT, WIFI_EVENT_STA_START, NULL), (WIFI_EVENT, WIFI_EVENT_STA_DISCONNECTED, NULL)]
     boot) = 2"
proof -
  let ?evs = "[(WIFI_EVENT, WIFI_EVENT_STA_START, NULL),
               (WIFI_EVENT, WIFI_EVENT_STA_DISCONNECTED, NULL),
               (WIFI_EVENT, WIFI_EVENT_STA_DISCONNECTED, NULL)]"
  have h: "list_all station_event ?evs" by (simp add: station_event_def)
  have k: "(2::nat) \<le> length ?evs" by simp
  have b: "connect_requests boot = 0" by (simp add: boot_def connect_requests_def)
  from connect_once_per_event[OF h k, of boot] b h show ?thesis by simp
qed

text \<open>
  C4. On a station-disconnected event of the link layer the handler issues one connect
  request and then writes one log entry, whatever happened before: there is no counter,
  no delay and no limit.
\<close>

theorem disconnected_reconnects:
  "wifi_event_handler arg WIFI_EVENT WIFI_EVENT_STA_DISCONNECTED event_data s =
     s\<lparr>calls := calls s @
         [Esp_wifi_connect, Esp_log_info ''CSI'' ''Retrying WiFi connection...'']\<rparr> \<and>
   connect_requests (wifi_event_handler arg WIFI_EVENT WIFI_EVENT_STA_DISCONNECTED event_data s) =
     connect_requests s + 1 \<and>
   log_entries (wifi_event_handler arg WIFI_EVENT WIFI_EVENT_STA_DISCONNECTED event_data s) =
     log_entries s + 1"
  using event_ids_distinct
  by (simp add: wifi_event_handler_def esp_wifi_connect_def ESP_LOGI_def TAG_def
        connect_requests_call log_entries_call)
    (simp add: call_def)

text \<open>
  C5. On an address-assigned event of the IP layer the handler writes one log entry and
  issues no connect request.
\<close>

theorem got_ip_logs_only:
  "wifi_event_handler arg IP_EVENT IP_EVENT_STA_GOT_IP event_data s =
     s\<lparr>calls := calls s @
         [Esp_log_info ''CSI'' ''WiFi connected. CSI should start appearing.'']\<rparr> \<and>
   connect_requests (wifi_event_handler arg IP_EVENT IP_EVENT_STA_GOT_IP event_data s) =
     connect_requests s \<and>
   log_entries (wifi_event_handler arg IP_EVENT IP_EVENT_STA_GOT_IP event_data s) =
     log_entries s + 1"
  by (simp add: wifi_event_handler_def ESP_LOGI_def TAG_def
        connect_requests_call log_entries_call)
    (simp add: call_def)

text \<open>
  C7. An event that is none of the three pairs leaves the system as it was: no call is
  made and nothing is written.
\<close>

theorem other_event_ignored:
  assumes "\<not> (event_base = WIFI_EVENT \<and> event_id = WIFI_EVENT_STA_START)"
      and "\<not> (event_base = WIFI_EVENT \<and> event_id = WIFI_EVENT_STA_DISCONNECTED)"
      and "\<not> (event_base = IP_EVENT \<and> event_id = IP_EVENT_STA_GOT_IP)"
  shows "wifi_event_handler arg event_base event_id event_data s = s"
  by (simp only: wifi_event_handler_def assms if_False)

theorem other_event_ignored_witness:
  "wifi_event_handler NULL WIFI_EVENT 4 NULL boot = boot \<and>
   wifi_event_handler NULL IP_EVENT WIFI_EVENT_STA_START NULL boot = boot \<and>
   wifi_event_handler NULL (OTHER_EVENT_BASE ''ETH_EVENT'') IP_EVENT_STA_GOT_IP NULL boot = boot"
proof -
  have a: "wifi_event_handler NULL WIFI_EVENT 4 NULL boot = boot"
    by (rule other_event_ignored)
       (simp_all add: WIFI_EVENT_STA_START_def WIFI_EVENT_STA_DISCONNECTED_def)
  have b: "wifi_event_handler NULL IP_EVENT WIFI_EVENT_STA_START NULL boot = boot"
    by (rule other_event_ignored)
       (simp_all add: WIFI_EVENT_STA_START_def IP_EVENT_STA_GOT_IP_def)
  have c: "wifi_event_handler NULL (OTHER_EVENT_BASE ''ETH_EVENT'') IP_EVENT_STA_GOT_IP NULL boot
           = boot"
    by (rule other_event_ignored) simp_all
  from a b c show ?thesis by simp
qed

section \<open>Properties of the initialisation\<close>

lemma csi_register_calls:
  "csi_register s =
     s\<lparr>calls := calls s @
         [Esp_wifi_set_csi_config csi_config,
          Esp_wifi_set_csi_rx_cb Addr_wifi_csi_cb NULL,
          Esp_wifi_set_csi True]\<rparr>"
  by (simp add: csi_register_def call_def)

lemma wifi_init_calls:
  "wifi_init s =
     s\<lparr>calls := calls s @
         [Esp_netif_init,
          Esp_event_loop_create_default,
          Esp_netif_create_default_wifi_sta,
          Esp_wifi_init WIFI_INIT_CONFIG_DEFAULT,
          Esp_event_handler_instance_register
            WIFI_EVENT ESP_EVENT_ANY_ID Addr_wifi_event_handler NULL NULL,
          Esp_event_handler_instance_register
            IP_EVENT IP_EVENT_STA_GOT_IP Addr_wifi_event_handler NULL NULL,
          Esp_wifi_set_mode WIFI_MODE_STA,
          Esp_wifi_set_config WIFI_IF_STA wifi_config,
          Esp_wifi_start,
          Esp_wifi_set_csi_config csi_config,
          Esp_wifi_set_csi_rx_cb Addr_wifi_csi_cb NULL,
          Esp_wifi_set_csi True,
          Esp_log_info TAG ''CSI initialized'']\<rparr>"
  by (simp add: wifi_init_def csi_register_calls ESP_LOGI_def call_def)

text \<open>
  C3, as the code has it. \<open>wifi_init\<close> makes thirteen calls, in this order: the
  network-interface runtime, the default event loop, the default station interface, the
  radio with the default parameters, the handler for every link-layer event, the same
  handler for the address-assigned event, station mode, the connection configuration
  (network name, secret, WPA2 as the weakest authentication accepted), the start of the
  radio, and after it the capture configuration, the capture callback, the capture switch
  and a log entry. Nothing is written to the standard output.
\<close>

theorem wifi_init_order:
  "calls (wifi_init s) = calls s @
     [Esp_netif_init,
      Esp_event_loop_create_default,
      Esp_netif_create_default_wifi_sta,
      Esp_wifi_init WIFI_INIT_CONFIG_DEFAULT,
      Esp_event_handler_instance_register
        WIFI_EVENT ESP_EVENT_ANY_ID Addr_wifi_event_handler NULL NULL,
      Esp_event_handler_instance_register
        IP_EVENT IP_EVENT_STA_GOT_IP Addr_wifi_event_handler NULL NULL,
      Esp_wifi_set_mode WIFI_MODE_STA,
      Esp_wifi_set_config WIFI_IF_STA
        (Sta \<lparr>ssid = ''Connecting...'', password = ''Error501'',
              threshold_authmode = WIFI_AUTH_WPA2_PSK\<rparr>),
      Esp_wifi_start,
      Esp_wifi_set_csi_config
        \<lparr>lltf_en = True, htltf_en = True, stbc_htltf2_en = True, ltf_merge_en = True,
         channel_filter_en = False, manu_scale = False, shift = False\<rparr>,
      Esp_wifi_set_csi_rx_cb Addr_wifi_csi_cb NULL,
      Esp_wifi_set_csi True,
      Esp_log_info ''CSI'' ''CSI initialized''] \<and>
   stdout (wifi_init s) = stdout s \<and>
   connect_requests (wifi_init s) = connect_requests s"
  by (simp add: wifi_init_calls wifi_config_def csi_config_def WIFI_SSID_def WIFI_PASS_def
        TAG_def connect_requests_def)

text \<open>
  The order of the specification fails on two steps. Station mode is set before the
  connection configuration is applied, not after it; and the start of the radio is not
  the last step, the capture calls and a log entry follow it.
\<close>

theorem wifi_init_order_counterexample:
  "called_before (Esp_wifi_set_mode WIFI_MODE_STA)
     (Esp_wifi_set_config WIFI_IF_STA wifi_config) (calls (wifi_init boot)) \<and>
   \<not> called_before (Esp_wifi_set_config WIFI_IF_STA wifi_config)
       (Esp_wifi_set_mode WIFI_MODE_STA) (calls (wifi_init boot)) \<and>
   called_before Esp_wifi_start (Esp_wifi_set_csi True) (calls (wifi_init boot)) \<and>
   last (calls (wifi_init boot)) \<noteq> Esp_wifi_start"
  by (simp add: wifi_init_calls boot_def)

section \<open>Registering the capture twice\<close>

lemma radio_after_append: "radio_after (cs @ ds) r = radio_after ds (radio_after cs r)"
  by (simp add: radio_after_def)

lemma radio_after_csi_register:
  "radio_after (calls (csi_register s)) r =
     (radio_after (calls s) r)
       \<lparr>capture_config := Some csi_config,
        receiver := Some (Addr_wifi_csi_cb, NULL),
        capture_enabled := True\<rparr>"
  by (simp add: csi_register_calls radio_after_append) (simp add: radio_after_def)

lemma radio_after_csi_register_twice:
  "radio_after (calls (csi_register (csi_register s))) r =
   radio_after (calls (csi_register s)) r"
  by (simp add: radio_after_csi_register)

text \<open>
  C8. After the three capture calls of \<open>wifi_init\<close> the driver hands every sample to
  \<open>wifi_csi_cb\<close> with context \<open>NULL\<close>. Making the three calls a second time with the same
  arguments leaves the driver as it was after the first time, so the samples delivered
  afterwards give the same output and the same result.
\<close>

theorem csi_register_idempotent:
  "deliver_all (radio_after (calls (csi_register (csi_register s))) r) samples out =
   deliver_all (radio_after (calls (csi_register s)) r) samples out \<and>
   deliver (radio_after (calls (csi_register s)) r) info out = wifi_csi_cb NULL info out"
  by (simp add: radio_after_csi_register_twice)
     (simp add: radio_after_csi_register deliver_def)

end
